theory Spec2Isabelle
  imports Main "HOL-Library.Product_Lexorder"
begin

section \<open>The smart\_custom extract strategy of osmium-tool\<close>

text \<open>
  A shallow embedding of \<^verbatim>\<open>src/extract/strategy_smart_custom.cpp\<close> (the
  \<^verbatim>\<open>relations\<close> / \<^verbatim>\<open>relation-system\<close> version of the strategy, the second unit of
  the source file). Mutation of an extract's bitsets is explicit state passing, C++
  exceptions are an error value next to the state they leave behind, and the
  \<^verbatim>\<open>while (!q.empty())\<close> loop of the relation closure is a recursive function with a
  termination proof.
\<close>

subsection \<open>OSM objects\<close>

text \<open>
  \<^verbatim>\<open>osmium::object_id_type\<close> is a signed 64-bit integer; \<^verbatim>\<open>positive_id()\<close> and
  \<^verbatim>\<open>positive_ref()\<close> return its absolute value as \<^verbatim>\<open>unsigned_object_id_type\<close>. No
  arithmetic is done on IDs, so they are \<open>int\<close> and \<open>nat\<close> here.
\<close>

type_synonym object_id_type = int
type_synonym unsigned_object_id_type = nat
type_synonym tag_list = "(string \<times> string) list"
type_synonym location = "int \<times> int"

definition positive :: "object_id_type \<Rightarrow> unsigned_object_id_type" where
  "positive i = nat \<bar>i\<bar>"

datatype item_type = node | way | relation

record relation_member =
  member_type :: item_type
  member_ref :: object_id_type

record osm_node =
  node_id :: object_id_type
  node_tags :: tag_list
  node_location :: location

record osm_way =
  way_id :: object_id_type
  way_tags :: tag_list
  way_nodes :: "object_id_type list"

record osm_relation =
  relation_id :: object_id_type
  relation_tags :: tag_list
  relation_members :: "relation_member list"

datatype osm_object = Node_object osm_node | Way_object osm_way | Relation_object osm_relation

subsection \<open>Per-extract state\<close>

text \<open>
  \<^verbatim>\<open>struct Data\<close> holds six ID sets (\<^verbatim>\<open>osmium::index::IdSetDense\<close>, a bitmap with
  \<^verbatim>\<open>set\<close>, \<^verbatim>\<open>get\<close>, \<^verbatim>\<open>empty\<close> and ascending iteration). \<^verbatim>\<open>extract_data\<close> is
  \<^verbatim>\<open>ExtractData<Data>\<close>: the \<^verbatim>\<open>Data\<close> fields extended by the extract it belongs to.
  The extract's boundary test, its two tag predicates and its writer are supplied from
  outside this file, so they are fields here; \<open>written\<close> is the sequence of items
  handed to \<^verbatim>\<open>write\<close> so far.
\<close>

record data =
  node_ids :: "unsigned_object_id_type set"
  extra_node_ids :: "unsigned_object_id_type set"
  way_ids :: "unsigned_object_id_type set"
  extra_way_ids :: "unsigned_object_id_type set"
  relation_ids :: "unsigned_object_id_type set"
  extra_relation_ids :: "unsigned_object_id_type set"

record extract_data = data +
  contains :: "location \<Rightarrow> bool"
  has_conflicting_tags :: "tag_list \<Rightarrow> bool"
  has_matching_tags :: "tag_list \<Rightarrow> bool"
  written :: "osm_object list"

definition write_item :: "osm_object \<Rightarrow> extract_data \<Rightarrow> extract_data" where
  "write_item item e = e\<lparr>written := written e @ [item]\<rparr>"

subsection \<open>Member pull-in\<close>

text \<open>
  \<^verbatim>\<open>Data::add_relation_members\<close>: one loop over the members; a node member not in
  \<^verbatim>\<open>node_ids\<close> is set in \<^verbatim>\<open>extra_node_ids\<close>, a way member not in \<^verbatim>\<open>way_ids\<close> is set
  in \<^verbatim>\<open>extra_way_ids\<close>, and a relation member is skipped.
\<close>

fun add_member :: "relation_member \<Rightarrow> 'a data_scheme \<Rightarrow> 'a data_scheme" where
  "add_member m e =
     (let ref = positive (member_ref m) in
      case member_type m of
        node \<Rightarrow> (if ref \<notin> node_ids e
                 then e\<lparr>extra_node_ids := insert ref (extra_node_ids e)\<rparr> else e)
      | way \<Rightarrow> (if ref \<notin> way_ids e
                then e\<lparr>extra_way_ids := insert ref (extra_way_ids e)\<rparr> else e)
      | relation \<Rightarrow> e)"

fun add_members_loop :: "relation_member list \<Rightarrow> 'a data_scheme \<Rightarrow> 'a data_scheme" where
  "add_members_loop [] e = e"
| "add_members_loop (m # ms) e = add_members_loop ms (add_member m e)"

definition add_relation_members :: "osm_relation \<Rightarrow> 'a data_scheme \<Rightarrow> 'a data_scheme" where
  "add_relation_members rel e = add_members_loop (relation_members rel) e"

subsection \<open>Strategy configuration\<close>

text \<open>
  \<^verbatim>\<open>osmium::TagsFilter\<close> is a callable on one tag; \<^verbatim>\<open>osmium::tags::match_any_of\<close> is
  \<^verbatim>\<open>std::any_of\<close> over the tag list. The two filters are built from the option
  strings by the constructor; here they are taken as built.
\<close>

type_synonym tags_filter = "string \<times> string \<Rightarrow> bool"

definition match_any_of :: "tag_list \<Rightarrow> tags_filter \<Rightarrow> bool" where
  "match_any_of tags f = list_ex f tags"

record strategy =
  m_relation_filter :: tags_filter
  m_relation_system_filter :: tags_filter
  m_by_first_node :: bool
  m_extracts :: "extract_data list"

definition is_relevant_relation :: "strategy \<Rightarrow> osm_relation \<Rightarrow> bool" where
  "is_relevant_relation s rel = match_any_of (relation_tags rel) (m_relation_filter s)"

definition is_part_of_relevant_relation_system :: "strategy \<Rightarrow> osm_relation \<Rightarrow> bool" where
  "is_part_of_relevant_relation_system s rel =
     match_any_of (relation_tags rel) (m_relation_system_filter s)"

datatype error =
  io_error
  | out_of_order_error
  | front_of_empty_list

subsection \<open>Relation map\<close>

text \<open>
  Modelled from the spec: \<^verbatim>\<open>osmium::index::RelationsMapStash\<close> and
  \<^verbatim>\<open>RelationsMapIndexes\<close> are library classes not under src/. Section 4.3 of the
  spec: \<^verbatim>\<open>add_members\<close> records, for each member that is itself a relation, the pair
  of member and containing relation; \<^verbatim>\<open>build_indexes\<close> turns the pairs into two sorted,
  duplicate-free lookup tables, member to parent and parent to member;
  \<^verbatim>\<open>for_each_parent(id, f)\<close> calls \<open>f\<close> on every value stored under key \<open>id\<close>.
\<close>

type_synonym relations_map_stash = "(unsigned_object_id_type \<times> unsigned_object_id_type) list"

record relations_map_indexes =
  member_to_parent :: "(unsigned_object_id_type \<times> unsigned_object_id_type) list"
  parent_to_member :: "(unsigned_object_id_type \<times> unsigned_object_id_type) list"

definition add_members :: "osm_relation \<Rightarrow> relations_map_stash \<Rightarrow> relations_map_stash" where
  "add_members rel stash =
     stash @ map (\<lambda>m. (positive (member_ref m), positive (relation_id rel)))
                 (filter (\<lambda>m. member_type m = relation) (relation_members rel))"

definition build_indexes :: "relations_map_stash \<Rightarrow> relations_map_indexes" where
  "build_indexes stash =
     \<lparr>member_to_parent = sort (remdups stash),
      parent_to_member = sort (remdups (map prod.swap stash))\<rparr>"

definition for_each_parent ::
  "(unsigned_object_id_type \<times> unsigned_object_id_type) list \<Rightarrow> unsigned_object_id_type
     \<Rightarrow> unsigned_object_id_type list" where
  "for_each_parent index i = map snd (filter (\<lambda>kv. fst kv = i) index)"

subsection \<open>Relation-system closure\<close>

text \<open>
  \<^verbatim>\<open>Data::add_relation_network\<close>. The lambda \<^verbatim>\<open>queue_relations\<close> pushes the parents
  of \<open>id\<close> and then its members; the queue is a list, pushed at the back and popped at
  the front. The first loop seeds the queue from \<^verbatim>\<open>relation_ids\<close>, iterated in
  ascending order; the second loop runs until the queue is empty.
\<close>

definition queue_relations ::
  "relations_map_indexes \<Rightarrow> unsigned_object_id_type \<Rightarrow> unsigned_object_id_type list" where
  "queue_relations indices i =
     for_each_parent (member_to_parent indices) i @ for_each_parent (parent_to_member indices) i"

definition index_keys :: "relations_map_indexes \<Rightarrow> unsigned_object_id_type set" where
  "index_keys indices =
     set (map fst (member_to_parent indices)) \<union> set (map fst (parent_to_member indices))"

function network_loop ::
  "relations_map_indexes \<Rightarrow> unsigned_object_id_type list \<Rightarrow> 'a data_scheme \<Rightarrow> 'a data_scheme" where
  "network_loop indices [] e = e"
| "network_loop indices (i # q) e =
     (if i \<notin> relation_ids e \<and> i \<notin> extra_relation_ids e
      then network_loop indices (q @ queue_relations indices i)
             (e\<lparr>extra_relation_ids := insert i (extra_relation_ids e)\<rparr>)
      else network_loop indices q e)"
  by pat_completeness auto

termination
proof (relation "(\<lambda>(indices, q, e).
          card (index_keys indices - (relation_ids e \<union> extra_relation_ids e)))
        <*mlex*> measure (\<lambda>(indices, q, e). length q)", goal_cases)
  case 1
  show ?case by (simp add: wf_mlex)
next
  case (2 indices i q e)
  have fin: "finite (index_keys indices)"
    by (simp add: index_keys_def)
  show ?case
  proof (cases "i \<in> index_keys indices")
    case True
    with 2 have "index_keys indices - (relation_ids e \<union> insert i (extra_relation_ids e))
        \<subset> index_keys indices - (relation_ids e \<union> extra_relation_ids e)"
      by auto
    with fin have "card (index_keys indices - (relation_ids e \<union> insert i (extra_relation_ids e)))
        < card (index_keys indices - (relation_ids e \<union> extra_relation_ids e))"
      by (intro psubset_card_mono) auto
    then show ?thesis by (simp add: mlex_less)
  next
    case False
    then have "filter (\<lambda>kv. fst kv = i) (member_to_parent indices) = []"
      and "filter (\<lambda>kv. fst kv = i) (parent_to_member indices) = []"
      by (auto simp: index_keys_def filter_empty_conv)
    then have "queue_relations indices i = []"
      by (simp add: queue_relations_def for_each_parent_def)
    moreover from False
    have "index_keys indices - (relation_ids e \<union> insert i (extra_relation_ids e))
        = index_keys indices - (relation_ids e \<union> extra_relation_ids e)"
      by auto
    ultimately show ?thesis by (simp add: mlex_iff)
  qed
next
  case (3 indices i q e)
  show ?case by (simp add: mlex_iff)
qed

definition add_relation_network :: "relations_map_indexes \<Rightarrow> 'a data_scheme \<Rightarrow> 'a data_scheme" where
  "add_relation_network indices e =
     network_loop indices
       (concat (map (queue_relations indices) (sorted_list_of_set (relation_ids e)))) e"



subsection \<open>Scan 1\<close>

text \<open>
  The loop \<^verbatim>\<open>for (const auto& nr : way.nodes())\<close> that sets every referenced node
  missing from \<^verbatim>\<open>node_ids\<close> in \<^verbatim>\<open>extra_node_ids\<close>; the source writes it out three
  times (twice in \<^verbatim>\<open>Pass1::eway\<close>, once in \<^verbatim>\<open>Pass3::eway\<close>).
\<close>

fun add_way_nodes :: "object_id_type list \<Rightarrow> 'a data_scheme \<Rightarrow> 'a data_scheme" where
  "add_way_nodes [] e = e"
| "add_way_nodes (nr # nrs) e =
     add_way_nodes nrs
       (if positive nr \<notin> node_ids e
        then e\<lparr>extra_node_ids := insert (positive nr) (extra_node_ids e)\<rparr> else e)"

definition pass1_enode :: "osm_node \<Rightarrow> extract_data \<Rightarrow> extract_data" where
  "pass1_enode n e =
     (if contains e (node_location n)
      then e\<lparr>node_ids := insert (positive (node_id n)) (node_ids e)\<rparr> else e)"

text \<open>
  \<^verbatim>\<open>Pass1::eway\<close>, the branch for \<^verbatim>\<open>m_by_first_node\<close> unset: the outer loop over the
  node references returns at the first one found in \<^verbatim>\<open>node_ids\<close>.
\<close>

fun eway_any_loop :: "object_id_type list \<Rightarrow> osm_way \<Rightarrow> extract_data \<Rightarrow> extract_data" where
  "eway_any_loop [] w e = e"
| "eway_any_loop (nr # nrs) w e =
     (if positive nr \<in> node_ids e
      then add_way_nodes (way_nodes w)
             (e\<lparr>way_ids := insert (positive (way_id w)) (way_ids e)\<rparr>)
      else eway_any_loop nrs w e)"

text \<open>
  \<^verbatim>\<open>Pass1::eway\<close>. With \<^verbatim>\<open>m_by_first_node\<close> set the code takes
  \<^verbatim>\<open>way.nodes().front()\<close> before anything else; \<^verbatim>\<open>front()\<close> of an empty node list has
  no defined result (the list must not be empty), which is the error
  \<open>front_of_empty_list\<close> here.
\<close>

definition pass1_eway :: "strategy \<Rightarrow> osm_way \<Rightarrow> extract_data \<Rightarrow> error + extract_data" where
  "pass1_eway s w e =
     (if m_by_first_node s then
        (case way_nodes w of
           [] \<Rightarrow> Inl front_of_empty_list
         | first_node # _ \<Rightarrow>
             Inr (if (positive first_node \<in> node_ids e \<and> \<not> has_conflicting_tags e (way_tags w))
                     \<or> has_matching_tags e (way_tags w)
                  then add_way_nodes (way_nodes w)
                         (e\<lparr>way_ids := insert (positive (way_id w)) (way_ids e)\<rparr>)
                  else e))
      else Inr (eway_any_loop (way_nodes w) w e))"

text \<open>
  \<^verbatim>\<open>Pass1::erelation\<close>: the loop over the members returns at the first node or way
  member found in \<^verbatim>\<open>node_ids\<close> or \<^verbatim>\<open>way_ids\<close>.
\<close>

definition accept_relation :: "strategy \<Rightarrow> osm_relation \<Rightarrow> extract_data \<Rightarrow> extract_data" where
  "accept_relation s rel e =
     (let e' = e\<lparr>relation_ids := insert (positive (relation_id rel)) (relation_ids e)\<rparr>
      in if is_relevant_relation s rel \<or> is_part_of_relevant_relation_system s rel
         then add_relation_members rel e' else e')"

fun erelation_loop ::
  "relation_member list \<Rightarrow> strategy \<Rightarrow> osm_relation \<Rightarrow> extract_data \<Rightarrow> extract_data" where
  "erelation_loop [] s rel e = e"
| "erelation_loop (m # ms) s rel e =
     (case member_type m of
        node \<Rightarrow> (if positive (member_ref m) \<in> node_ids e
                 then accept_relation s rel e else erelation_loop ms s rel e)
      | way \<Rightarrow> (if positive (member_ref m) \<in> way_ids e
                then accept_relation s rel e else erelation_loop ms s rel e)
      | relation \<Rightarrow> erelation_loop ms s rel e)"

definition pass1_erelation :: "strategy \<Rightarrow> osm_relation \<Rightarrow> extract_data \<Rightarrow> extract_data" where
  "pass1_erelation s rel e = erelation_loop (relation_members rel) s rel e"

subsection \<open>Scans 2, 3 and 4\<close>

definition pass2_erelation :: "strategy \<Rightarrow> osm_relation \<Rightarrow> extract_data \<Rightarrow> extract_data" where
  "pass2_erelation s rel e =
     (if positive (relation_id rel) \<in> extra_relation_ids e
         \<and> is_part_of_relevant_relation_system s rel
      then add_relation_members rel e else e)"

definition pass3_eway :: "osm_way \<Rightarrow> extract_data \<Rightarrow> extract_data" where
  "pass3_eway w e =
     (if positive (way_id w) \<in> extra_way_ids e then add_way_nodes (way_nodes w) e else e)"

definition pass4_enode :: "osm_node \<Rightarrow> extract_data \<Rightarrow> extract_data" where
  "pass4_enode n e =
     (if positive (node_id n) \<in> node_ids e \<or> positive (node_id n) \<in> extra_node_ids e
      then write_item (Node_object n) e else e)"

definition pass4_eway :: "osm_way \<Rightarrow> extract_data \<Rightarrow> extract_data" where
  "pass4_eway w e =
     (if positive (way_id w) \<in> way_ids e \<or> positive (way_id w) \<in> extra_way_ids e
      then write_item (Way_object w) e else e)"

definition pass4_erelation :: "osm_relation \<Rightarrow> extract_data \<Rightarrow> extract_data" where
  "pass4_erelation rel e =
     (if positive (relation_id rel) \<in> relation_ids e
         \<or> positive (relation_id rel) \<in> extra_relation_ids e
      then write_item (Relation_object rel) e else e)"

subsection \<open>Order check\<close>

text \<open>
  Modelled from the spec: \<^verbatim>\<open>osmium::handler::CheckOrder\<close> is a library class not under
  src/. Sections 4.4 and 7 of the spec: scan 1 validates that the input has points, then
  ways, then relations, and that the IDs of one type do not decrease; a violation is a
  fatal error. The checker remembers the last ID seen of each type.
\<close>

record check_order =
  m_max_node_id :: "object_id_type option"
  m_max_way_id :: "object_id_type option"
  m_max_relation_id :: "object_id_type option"

definition check_order_init :: check_order where
  "check_order_init = \<lparr>m_max_node_id = None, m_max_way_id = None, m_max_relation_id = None\<rparr>"

definition id_decreases :: "object_id_type option \<Rightarrow> object_id_type \<Rightarrow> bool" where
  "id_decreases prev i = (case prev of None \<Rightarrow> False | Some j \<Rightarrow> i < j)"

definition check_order_node :: "osm_node \<Rightarrow> check_order \<Rightarrow> error + check_order" where
  "check_order_node n c =
     (if m_max_way_id c \<noteq> None \<or> m_max_relation_id c \<noteq> None
         \<or> id_decreases (m_max_node_id c) (node_id n)
      then Inl out_of_order_error else Inr (c\<lparr>m_max_node_id := Some (node_id n)\<rparr>))"

definition check_order_way :: "osm_way \<Rightarrow> check_order \<Rightarrow> error + check_order" where
  "check_order_way w c =
     (if m_max_relation_id c \<noteq> None \<or> id_decreases (m_max_way_id c) (way_id w)
      then Inl out_of_order_error else Inr (c\<lparr>m_max_way_id := Some (way_id w)\<rparr>))"

definition check_order_relation :: "osm_relation \<Rightarrow> check_order \<Rightarrow> error + check_order" where
  "check_order_relation rel c =
     (if id_decreases (m_max_relation_id c) (relation_id rel)
      then Inl out_of_order_error else Inr (c\<lparr>m_max_relation_id := Some (relation_id rel)\<rparr>))"

subsection \<open>The pass driver\<close>

text \<open>
  Modelled from the spec: the class template \<^verbatim>\<open>Pass\<close> that
  every \<^verbatim>\<open>PassN\<close> derives from is not under src/. Section 4.4 of the spec: a pass reads
  the input once from start to finish, possibly restricted to some element types, and
  each element is dispatched, after the pass's own per-element handler, to the handler
  of its type for every extract in turn. A handler that a pass does not define does
  nothing.
\<close>

record pass1 =
  m_check_order :: check_order
  m_relations_map_stash :: relations_map_stash

definition pass1_init :: pass1 where
  "pass1_init = \<lparr>m_check_order = check_order_init, m_relations_map_stash = []\<rparr>"

text \<open>
  The handlers of \<^verbatim>\<open>Pass1\<close> that see the element once, before the extracts do.
\<close>

definition pass1_node :: "osm_node \<Rightarrow> pass1 \<Rightarrow> error + pass1" where
  "pass1_node n p =
     (case check_order_node n (m_check_order p) of
        Inl err \<Rightarrow> Inl err
      | Inr c \<Rightarrow> Inr (p\<lparr>m_check_order := c\<rparr>))"

definition pass1_way :: "osm_way \<Rightarrow> pass1 \<Rightarrow> error + pass1" where
  "pass1_way w p =
     (case check_order_way w (m_check_order p) of
        Inl err \<Rightarrow> Inl err
      | Inr c \<Rightarrow> Inr (p\<lparr>m_check_order := c\<rparr>))"

definition pass1_relation :: "strategy \<Rightarrow> osm_relation \<Rightarrow> pass1 \<Rightarrow> error + pass1" where
  "pass1_relation s rel p =
     (case check_order_relation rel (m_check_order p) of
        Inl err \<Rightarrow> Inl err
      | Inr c \<Rightarrow>
          Inr (if is_part_of_relevant_relation_system s rel
               then p\<lparr>m_check_order := c,
                      m_relations_map_stash := add_members rel (m_relations_map_stash p)\<rparr>
               else p\<lparr>m_check_order := c\<rparr>))"

text \<open>
  The loop over the extracts for one element. A handler that fails leaves the extracts
  before it updated and the others as they were.
\<close>

fun for_each_extract ::
  "(extract_data \<Rightarrow> error + extract_data) \<Rightarrow> extract_data list
     \<Rightarrow> error option \<times> extract_data list" where
  "for_each_extract h [] = (None, [])"
| "for_each_extract h (e # es) =
     (case h e of
        Inl err \<Rightarrow> (Some err, e # es)
      | Inr e' \<Rightarrow> (case for_each_extract h es of (r, es') \<Rightarrow> (r, e' # es')))"

definition pass1_object ::
  "osm_object \<Rightarrow> pass1 \<times> strategy \<Rightarrow> error option \<times> pass1 \<times> strategy" where
  "pass1_object obj ps =
     (case ps of (p, s) \<Rightarrow>
      (case obj of
         Node_object n \<Rightarrow>
           (case pass1_node n p of
              Inl err \<Rightarrow> (Some err, p, s)
            | Inr p' \<Rightarrow> (None, p', s\<lparr>m_extracts := map (pass1_enode n) (m_extracts s)\<rparr>))
       | Way_object w \<Rightarrow>
           (case pass1_way w p of
              Inl err \<Rightarrow> (Some err, p, s)
            | Inr p' \<Rightarrow>
                (case for_each_extract (pass1_eway s w) (m_extracts s) of
                   (r, es') \<Rightarrow> (r, p', s\<lparr>m_extracts := es'\<rparr>)))
       | Relation_object rel \<Rightarrow>
           (case pass1_relation s rel p of
              Inl err \<Rightarrow> (Some err, p, s)
            | Inr p' \<Rightarrow>
                (None, p', s\<lparr>m_extracts := map (pass1_erelation s rel) (m_extracts s)\<rparr>))))"

fun pass1_run ::
  "osm_object list \<Rightarrow> pass1 \<times> strategy \<Rightarrow> error option \<times> pass1 \<times> strategy" where
  "pass1_run [] ps = (None, ps)"
| "pass1_run (obj # objs) ps =
     (case pass1_object obj ps of
        (Some err, ps') \<Rightarrow> (Some err, ps')
      | (None, ps') \<Rightarrow> pass1_run objs ps')"

definition pass2_object :: "osm_object \<Rightarrow> strategy \<Rightarrow> strategy" where
  "pass2_object obj s =
     (case obj of
        Relation_object rel \<Rightarrow> s\<lparr>m_extracts := map (pass2_erelation s rel) (m_extracts s)\<rparr>
      | _ \<Rightarrow> s)"

definition pass3_object :: "osm_object \<Rightarrow> strategy \<Rightarrow> strategy" where
  "pass3_object obj s =
     (case obj of
        Way_object w \<Rightarrow> s\<lparr>m_extracts := map (pass3_eway w) (m_extracts s)\<rparr>
      | _ \<Rightarrow> s)"

definition pass4_object :: "osm_object \<Rightarrow> strategy \<Rightarrow> strategy" where
  "pass4_object obj s =
     (case obj of
        Node_object n \<Rightarrow> s\<lparr>m_extracts := map (pass4_enode n) (m_extracts s)\<rparr>
      | Way_object w \<Rightarrow> s\<lparr>m_extracts := map (pass4_eway w) (m_extracts s)\<rparr>
      | Relation_object rel \<Rightarrow> s\<lparr>m_extracts := map (pass4_erelation rel) (m_extracts s)\<rparr>)"

fun pass_run :: "(osm_object \<Rightarrow> strategy \<Rightarrow> strategy) \<Rightarrow> osm_object list \<Rightarrow> strategy \<Rightarrow> strategy" where
  "pass_run h [] s = s"
| "pass_run h (obj # objs) s = pass_run h objs (h obj s)"

subsection \<open>The run\<close>

text \<open>
  \<^verbatim>\<open>osmium::io::File\<close> with what a reader opened on it delivers: the same sequence of
  objects every time a file with a name is opened. A reader restricted to one entity
  type delivers the objects of that type only. Progress bar and verbose output have no
  effect on the extracts and are left out.
\<close>

record input_file =
  filename :: string
  objects :: "osm_object list"

definition object_type :: "osm_object \<Rightarrow> item_type" where
  "object_type obj =
     (case obj of Node_object _ \<Rightarrow> node | Way_object _ \<Rightarrow> way | Relation_object _ \<Rightarrow> relation)"

definition read_entities :: "input_file \<Rightarrow> item_type \<Rightarrow> osm_object list" where
  "read_entities f t = filter (\<lambda>obj. object_type obj = t) (objects f)"

definition closure_step :: "relations_map_indexes \<Rightarrow> strategy \<Rightarrow> strategy" where
  "closure_step indices s = s\<lparr>m_extracts := map (add_relation_network indices) (m_extracts s)\<rparr>"

definition scan2 :: "input_file \<Rightarrow> strategy \<Rightarrow> strategy" where
  "scan2 f s =
     (if list_ex (\<lambda>e. extra_relation_ids e \<noteq> {}) (m_extracts s)
      then pass_run pass2_object (read_entities f relation) s else s)"

definition scan3 :: "input_file \<Rightarrow> strategy \<Rightarrow> strategy" where
  "scan3 f s =
     (if list_ex (\<lambda>e. extra_way_ids e \<noteq> {}) (m_extracts s)
      then pass_run pass3_object (read_entities f way) s else s)"

definition scan4 :: "input_file \<Rightarrow> strategy \<Rightarrow> strategy" where
  "scan4 f s = pass_run pass4_object (objects f) s"

text \<open>
  \<^verbatim>\<open>Strategy::run\<close>. The result is the exception thrown, if any, and the strategy
  object as the call leaves it.
\<close>

definition run :: "input_file \<Rightarrow> strategy \<Rightarrow> error option \<times> strategy" where
  "run f s =
     (if filename f = [] then (Some io_error, s)
      else
        (case pass1_run (objects f) (pass1_init, s) of
           (Some err, p, s1) \<Rightarrow> (Some err, s1)
         | (None, p, s1) \<Rightarrow>
             (let relation_indices = build_indexes (m_relations_map_stash p)
              in (None, scan4 f (scan3 f (scan2 f (closure_step relation_indices s1)))))))"

subsection \<open>Specification-side notions\<close>

text \<open>The IDs of the members of one type that the pull-in has to add.\<close>

definition missing_members ::
  "item_type \<Rightarrow> unsigned_object_id_type set \<Rightarrow> relation_member list \<Rightarrow> unsigned_object_id_type set" where
  "missing_members t prim ms =
     {r. r \<notin> prim \<and> r \<in> set (map (\<lambda>m. positive (member_ref m)) (filter (\<lambda>m. member_type m = t) ms))}"

text \<open>
  The relation graph as the closure sees it: \<open>b\<close> is a neighbour of \<open>a\<close> when
  \<^verbatim>\<open>queue_relations(a)\<close> pushes \<open>b\<close>. The weakly connected component of a set of
  relations in the graph recorded by a stash follows the recorded membership edges in
  both directions. The degree of a relation is the number of pushes that
  \<^verbatim>\<open>queue_relations\<close> makes for it.
\<close>

definition neighbours :: "relations_map_indexes \<Rightarrow> (unsigned_object_id_type \<times> unsigned_object_id_type) set" where
  "neighbours indices = {(a, b). b \<in> set (queue_relations indices a)}"

definition system_component ::
  "relations_map_stash \<Rightarrow> unsigned_object_id_type set \<Rightarrow> unsigned_object_id_type set" where
  "system_component stash prim = (set stash \<union> (set stash)\<inverse>)\<^sup>* `` prim"


text \<open>
  The node references of a way that are missing from a primary set; a relation member
  that is a node or a way already in the extract's primary set of its type; and the test
  of scan 4, whether an object is in the primary or the extra set of its type.
\<close>

definition missing_nodes ::
  "unsigned_object_id_type set \<Rightarrow> object_id_type list \<Rightarrow> unsigned_object_id_type set" where
  "missing_nodes prim nrs = {r. r \<notin> prim \<and> r \<in> set (map positive nrs)}"

definition primary_member :: "extract_data \<Rightarrow> relation_member \<Rightarrow> bool" where
  "primary_member e m =
     (member_type m = node \<and> positive (member_ref m) \<in> node_ids e
      \<or> member_type m = way \<and> positive (member_ref m) \<in> way_ids e)"

definition in_extract :: "extract_data \<Rightarrow> osm_object \<Rightarrow> bool" where
  "in_extract e obj =
     (case obj of
        Node_object n \<Rightarrow>
          positive (node_id n) \<in> node_ids e \<or> positive (node_id n) \<in> extra_node_ids e
      | Way_object w \<Rightarrow>
          positive (way_id w) \<in> way_ids e \<or> positive (way_id w) \<in> extra_way_ids e
      | Relation_object rel \<Rightarrow>
          positive (relation_id rel) \<in> relation_ids e
          \<or> positive (relation_id rel) \<in> extra_relation_ids e)"

text \<open>
  Frame conditions on one extract: the second state is the first one with nothing but the
  named fields written. The primary sets of an extract.
\<close>

definition writes_only_extra_relations :: "extract_data \<Rightarrow> extract_data \<Rightarrow> bool" where
  "writes_only_extra_relations e e' = (e' = e\<lparr>extra_relation_ids := extra_relation_ids e'\<rparr>)"

definition writes_only_extra_nodes_ways :: "extract_data \<Rightarrow> extract_data \<Rightarrow> bool" where
  "writes_only_extra_nodes_ways e e' =
     (e' = e\<lparr>extra_node_ids := extra_node_ids e', extra_way_ids := extra_way_ids e'\<rparr>)"

definition writes_only_extra_nodes :: "extract_data \<Rightarrow> extract_data \<Rightarrow> bool" where
  "writes_only_extra_nodes e e' = (e' = e\<lparr>extra_node_ids := extra_node_ids e'\<rparr>)"

definition writes_only_output :: "extract_data \<Rightarrow> extract_data \<Rightarrow> bool" where
  "writes_only_output e e' = (e' = e\<lparr>written := written e'\<rparr>)"

definition primary_sets ::
  "extract_data \<Rightarrow> unsigned_object_id_type set \<times> unsigned_object_id_type set \<times> unsigned_object_id_type set" where
  "primary_sets e = (node_ids e, way_ids e, relation_ids e)"

text \<open>
  The two sets of each element type have no ID in common; the state of \<^verbatim>\<open>Data\<close> as
  constructed; and the invariant of scan 1 for one extract, relative to what the order
  check has seen: no extra relation yet, finitely many primary relations, no extra way
  before the first relation, no extra node before the first way or relation.
\<close>

definition disjoint_sets :: "'a data_scheme \<Rightarrow> bool" where
  "disjoint_sets e =
     (node_ids e \<inter> extra_node_ids e = {}
      \<and> way_ids e \<inter> extra_way_ids e = {}
      \<and> relation_ids e \<inter> extra_relation_ids e = {})"

definition empty_data :: "'a data_scheme \<Rightarrow> bool" where
  "empty_data e =
     (node_ids e = {} \<and> extra_node_ids e = {} \<and> way_ids e = {} \<and> extra_way_ids e = {}
      \<and> relation_ids e = {} \<and> extra_relation_ids e = {})"

definition pass1_inv :: "check_order \<Rightarrow> extract_data \<Rightarrow> bool" where
  "pass1_inv c e =
     (disjoint_sets e \<and> extra_relation_ids e = {} \<and> finite (relation_ids e)
      \<and> (m_max_relation_id c = None \<longrightarrow> extra_way_ids e = {})
      \<and> (m_max_way_id c = None \<and> m_max_relation_id c = None \<longrightarrow> extra_node_ids e = {}))"

subsection \<open>A worked example\<close>

text \<open>
  The end-to-end scenario of the spec (section 8, item 6): one extract whose boundary
  contains nodes 1 and 2 but not node 3, way 10 over nodes 1 and 3, relation 20 holding
  way 10, relation 21 holding relation 20, both relations system-qualifying, and
  \<^verbatim>\<open>by_first_node\<close> disabled.
\<close>

definition ex_file :: input_file where
  "ex_file = \<lparr>filename = ''in.osm'', objects =
     [Node_object \<lparr>node_id = 1, node_tags = [], node_location = (0, 0)\<rparr>,
      Node_object \<lparr>node_id = 2, node_tags = [], node_location = (0, 0)\<rparr>,
      Node_object \<lparr>node_id = 3, node_tags = [], node_location = (9, 9)\<rparr>,
      Way_object \<lparr>way_id = 10, way_tags = [], way_nodes = [1, 3]\<rparr>,
      Relation_object \<lparr>relation_id = 20, relation_tags = [(''type'', ''sys'')],
        relation_members = [\<lparr>member_type = way, member_ref = 10\<rparr>]\<rparr>,
      Relation_object \<lparr>relation_id = 21, relation_tags = [(''type'', ''sys'')],
        relation_members = [\<lparr>member_type = relation, member_ref = 20\<rparr>]\<rparr>]\<rparr>"

definition ex_strategy :: strategy where
  "ex_strategy = \<lparr>m_relation_filter = (\<lambda>t. False),
     m_relation_system_filter = (\<lambda>t. t = (''type'', ''sys'')),
     m_by_first_node = False,
     m_extracts = [\<lparr>node_ids = {}, extra_node_ids = {}, way_ids = {}, extra_way_ids = {},
          relation_ids = {}, extra_relation_ids = {}, contains = (\<lambda>l. l = (0, 0)),
          has_conflicting_tags = (\<lambda>t. False), has_matching_tags = (\<lambda>t. False), written = []\<rparr>]\<rparr>"


subsection \<open>Properties of the member pull-in\<close>

lemma add_members_loop_eq:
  "add_members_loop ms e =
     e\<lparr>extra_node_ids := extra_node_ids e \<union> missing_members node (node_ids e) ms,
       extra_way_ids := extra_way_ids e \<union> missing_members way (way_ids e) ms\<rparr>"
proof (induction ms arbitrary: e)
  case Nil
  show ?case by (simp add: missing_members_def)
next
  case (Cons m ms)
  show ?case
  proof (cases "member_type m")
    case node
    then show ?thesis
      by (auto simp: Cons.IH missing_members_def Let_def intro!: data.equality)
  next
    case way
    then show ?thesis
      by (auto simp: Cons.IH missing_members_def Let_def intro!: data.equality)
  next
    case relation
    then show ?thesis
      by (auto simp: Cons.IH missing_members_def Let_def intro!: data.equality)
  qed
qed

lemma add_relation_members_eq:
  "add_relation_members rel e =
     e\<lparr>extra_node_ids := extra_node_ids e \<union> missing_members node (node_ids e) (relation_members rel),
       extra_way_ids := extra_way_ids e \<union> missing_members way (way_ids e) (relation_members rel)\<rparr>"
  by (simp add: add_relation_members_def add_members_loop_eq)

text \<open>
  C6. The member pull-in is idempotent: for every extract state and every relation,
  calling \<^verbatim>\<open>add_relation_members\<close> twice in a row on the same relation gives exactly
  the state that one call gives.
\<close>

theorem add_relation_members_idempotent:
  "add_relation_members rel (add_relation_members rel e) = add_relation_members rel e"
  by (simp add: add_relation_members_eq Un_assoc)


subsection \<open>Properties of the relation-system closure\<close>

lemma network_loop_frame:
  "\<exists>X. network_loop indices q e = e\<lparr>extra_relation_ids := X\<rparr>"
proof (induction indices q e rule: network_loop.induct)
  case (1 indices e)
  have "e = e\<lparr>extra_relation_ids := extra_relation_ids e\<rparr>" by simp
  then show ?case by (metis network_loop.simps(1))
next
  case (2 indices i q e)
  show ?case
  proof (cases "i \<notin> relation_ids e \<and> i \<notin> extra_relation_ids e")
    case True
    with 2 obtain X where "network_loop indices (i # q) e
        = e\<lparr>extra_relation_ids := insert i (extra_relation_ids e)\<rparr>\<lparr>extra_relation_ids := X\<rparr>"
      by auto
    then show ?thesis by auto
  next
    case False
    with 2 show ?thesis by auto
  qed
qed

lemma network_loop_relation_ids [simp]:
  "relation_ids (network_loop indices q e) = relation_ids e"
proof -
  obtain X where "network_loop indices q e = e\<lparr>extra_relation_ids := X\<rparr>"
    using network_loop_frame by blast
  then show ?thesis by simp
qed

lemma network_loop_mono:
  "extra_relation_ids e \<subseteq> extra_relation_ids (network_loop indices q e)"
  by (induction indices q e rule: network_loop.induct) (auto split: if_splits)

lemma network_loop_skip:
  "set q \<subseteq> relation_ids e \<union> extra_relation_ids e \<Longrightarrow> network_loop indices q e = e"
  by (induction q) auto

lemma network_loop_sound:
  assumes "set q \<subseteq> R" and "extra_relation_ids e \<subseteq> R" and "neighbours indices `` R \<subseteq> R"
  shows "extra_relation_ids (network_loop indices q e) \<subseteq> R"
  using assms
proof (induction indices q e rule: network_loop.induct)
  case (1 indices e)
  then show ?case by simp
next
  case (2 indices i q e)
  from "2.prems" have "set (queue_relations indices i) \<subseteq> R"
    by (auto simp: neighbours_def)
  with 2 show ?case by (auto split: if_splits)
qed

lemma network_loop_disjoint:
  "extra_relation_ids e \<inter> relation_ids e = {}
     \<Longrightarrow> extra_relation_ids (network_loop indices q e) \<inter> relation_ids e = {}"
  by (induction indices q e rule: network_loop.induct) (auto split: if_splits)

lemma network_loop_closed:
  assumes "\<forall>x \<in> relation_ids e \<union> extra_relation_ids e.
             neighbours indices `` {x} \<subseteq> relation_ids e \<union> extra_relation_ids e \<union> set q"
  shows "neighbours indices `` (relation_ids e \<union> extra_relation_ids (network_loop indices q e))
             \<subseteq> relation_ids e \<union> extra_relation_ids (network_loop indices q e)
         \<and> set q \<subseteq> relation_ids e \<union> extra_relation_ids (network_loop indices q e)"
  using assms
proof (induction indices q e rule: network_loop.induct)
  case (1 indices e)
  then show ?case by auto
next
  case (2 indices i q e)
  show ?case
  proof (cases "i \<notin> relation_ids e \<and> i \<notin> extra_relation_ids e")
    case True
    let ?e = "e\<lparr>extra_relation_ids := insert i (extra_relation_ids e)\<rparr>"
    let ?q = "q @ queue_relations indices i"
    have "\<forall>x \<in> relation_ids ?e \<union> extra_relation_ids ?e.
             neighbours indices `` {x} \<subseteq> relation_ids ?e \<union> extra_relation_ids ?e \<union> set ?q"
      using "2.prems" by (auto simp: neighbours_def)
    from "2.IH"(1)[OF True this]
    have cl: "neighbours indices `` (relation_ids e \<union> extra_relation_ids (network_loop indices ?q ?e))
             \<subseteq> relation_ids e \<union> extra_relation_ids (network_loop indices ?q ?e)"
      and sq: "set ?q \<subseteq> relation_ids e \<union> extra_relation_ids (network_loop indices ?q ?e)"
      by simp_all
    have "i \<in> extra_relation_ids (network_loop indices ?q ?e)"
      using network_loop_mono[of ?e indices ?q] by auto
    with cl sq True show ?thesis by auto
  next
    case False
    then have "\<forall>x \<in> relation_ids e \<union> extra_relation_ids e.
             neighbours indices `` {x} \<subseteq> relation_ids e \<union> extra_relation_ids e \<union> set q"
      using "2.prems" by auto
    from "2.IH"(2)[OF False this] False network_loop_mono[of e indices q]
    show ?thesis by auto
  qed
qed


lemma set_for_each_parent:
  "set (for_each_parent index a) = {b. (a, b) \<in> set index}"
  by (force simp: for_each_parent_def)

lemma neighbours_build_indexes:
  "neighbours (build_indexes stash) = set stash \<union> (set stash)\<inverse>"
  by (auto simp: neighbours_def queue_relations_def set_for_each_parent build_indexes_def)

lemma seed_set:
  "finite P \<Longrightarrow> set (concat (map (queue_relations indices) (sorted_list_of_set P)))
     = neighbours indices `` P"
  by (auto simp: neighbours_def)

lemma network_loop_covers:
  "set q \<subseteq> relation_ids e \<union> extra_relation_ids (network_loop indices q e)"
proof (induction indices q e rule: network_loop.induct)
  case (1 indices e)
  show ?case by simp
next
  case (2 indices i q e)
  show ?case
  proof (cases "i \<notin> relation_ids e \<and> i \<notin> extra_relation_ids e")
    case True
    let ?e = "e\<lparr>extra_relation_ids := insert i (extra_relation_ids e)\<rparr>"
    let ?q = "q @ queue_relations indices i"
    have "i \<in> extra_relation_ids (network_loop indices ?q ?e)"
      using network_loop_mono[of ?e indices ?q] by auto
    with "2.IH"(1)[OF True] True show ?thesis by auto
  next
    case False
    with "2.IH"(2)[OF False] network_loop_mono[of e indices q] show ?thesis by auto
  qed
qed

lemma add_relation_network_fixed:
  "add_relation_network indices (add_relation_network indices e)
     = add_relation_network indices e"
proof -
  let ?q = "concat (map (queue_relations indices) (sorted_list_of_set (relation_ids e)))"
  let ?e = "network_loop indices ?q e"
  have "set ?q \<subseteq> relation_ids ?e \<union> extra_relation_ids ?e"
    using network_loop_covers[of ?q e indices]
    by (simp only: network_loop_relation_ids)
  then have "network_loop indices ?q ?e = ?e"
    by (rule network_loop_skip)
  then show ?thesis
    by (simp only: add_relation_network_def network_loop_relation_ids)
qed

lemma add_relation_network_component:
  assumes fin: "finite (relation_ids e)" and emp: "extra_relation_ids e = {}"
  shows "add_relation_network indices e
     = e\<lparr>extra_relation_ids := (neighbours indices)\<^sup>* `` relation_ids e - relation_ids e\<rparr>"
proof -
  let ?q = "concat (map (queue_relations indices) (sorted_list_of_set (relation_ids e)))"
  let ?N = "neighbours indices"
  let ?P = "relation_ids e"
  let ?E = "extra_relation_ids (network_loop indices ?q e)"
  have q: "set ?q = ?N `` ?P"
    using fin by (rule seed_set)
  have sound: "?E \<subseteq> ?N\<^sup>* `` ?P"
  proof (rule network_loop_sound)
    show "set ?q \<subseteq> ?N\<^sup>* `` ?P" unfolding q by auto
    show "extra_relation_ids e \<subseteq> ?N\<^sup>* `` ?P" using emp by simp
    show "?N `` (?N\<^sup>* `` ?P) \<subseteq> ?N\<^sup>* `` ?P" by (auto intro: rtrancl_into_rtrancl)
  qed
  have "\<forall>x \<in> ?P \<union> extra_relation_ids e. ?N `` {x} \<subseteq> ?P \<union> extra_relation_ids e \<union> set ?q"
    unfolding q using emp by auto
  then have closed: "?N `` (?P \<union> ?E) \<subseteq> ?P \<union> ?E"
    using network_loop_closed by blast
  have complete: "?N\<^sup>* `` ?P \<subseteq> ?P \<union> ?E"
  proof
    fix y assume "y \<in> ?N\<^sup>* `` ?P"
    then obtain x where "x \<in> ?P" and "(x, y) \<in> ?N\<^sup>*" by auto
    from this(2) this(1) show "y \<in> ?P \<union> ?E"
      using closed by (induction rule: rtrancl_induct) auto
  qed
  have "?E \<inter> ?P = {}"
    using emp by (intro network_loop_disjoint) simp
  with sound complete have "?E = ?N\<^sup>* `` ?P - ?P" by auto
  moreover obtain X where "network_loop indices ?q e = e\<lparr>extra_relation_ids := X\<rparr>"
    using network_loop_frame by blast
  ultimately show ?thesis
    by (simp add: add_relation_network_def)
qed

text \<open>
  C1. Run on a state whose \<^verbatim>\<open>extra_relation_ids\<close> is still empty (as it is after
  scan 1), the closure leaves everything but \<^verbatim>\<open>extra_relation_ids\<close> as it was and sets
  \<^verbatim>\<open>extra_relation_ids\<close> to exactly the relations that a chain of recorded membership
  edges, followed in either direction, connects to some relation of \<^verbatim>\<open>relation_ids\<close>,
  less \<^verbatim>\<open>relation_ids\<close> itself. The result depends on the set of recorded edges
  only, not on the order of traversal, and running the closure again changes nothing.
\<close>

theorem add_relation_network_weak_component:
  assumes "finite (relation_ids e)" and "extra_relation_ids e = {}"
  shows "add_relation_network (build_indexes stash) e
           = e\<lparr>extra_relation_ids := system_component stash (relation_ids e) - relation_ids e\<rparr>
         \<and> add_relation_network (build_indexes stash) (add_relation_network (build_indexes stash) e)
           = add_relation_network (build_indexes stash) e"
proof
  from assms show "add_relation_network (build_indexes stash) e
      = e\<lparr>extra_relation_ids := system_component stash (relation_ids e) - relation_ids e\<rparr>"
    by (simp add: add_relation_network_component neighbours_build_indexes system_component_def)
  show "add_relation_network (build_indexes stash) (add_relation_network (build_indexes stash) e)
      = add_relation_network (build_indexes stash) e"
    by (rule add_relation_network_fixed)
qed

theorem add_relation_network_weak_component_witness:
  "finite (relation_ids \<lparr>node_ids = {}, extra_node_ids = {}, way_ids = {}, extra_way_ids = {},
      relation_ids = {1}, extra_relation_ids = {}\<rparr>)
   \<and> extra_relation_ids \<lparr>node_ids = {}, extra_node_ids = {}, way_ids = {}, extra_way_ids = {},
      relation_ids = {1::nat}, extra_relation_ids = {}\<rparr> = {}
   \<and> system_component [(2, 1), (3, 2)] {1} - {1} = {2, 3}"
proof -
  let ?e = "\<lparr>node_ids = {}, extra_node_ids = {}, way_ids = {}, extra_way_ids = {},
      relation_ids = {1::nat}, extra_relation_ids = {}\<rparr>"
  have ev: "extra_relation_ids (add_relation_network (build_indexes [(2, 1), (3, 2)]) ?e) = {2, 3}"
    by code_simp
  have "finite (relation_ids ?e)" and "extra_relation_ids ?e = {}" by simp_all
  from add_relation_network_weak_component[OF this, of "[(2, 1), (3, 2)]"] ev
  show ?thesis by simp
qed



subsection \<open>Number of queue pushes of the closure\<close>










subsection \<open>Scan 1: ways\<close>

lemma add_way_nodes_eq:
  "add_way_nodes nrs e = e\<lparr>extra_node_ids := extra_node_ids e \<union> missing_nodes (node_ids e) nrs\<rparr>"
proof (induction nrs arbitrary: e)
  case Nil
  show ?case by (simp add: missing_nodes_def)
next
  case (Cons nr nrs)
  show ?case
    by (auto simp: Cons.IH missing_nodes_def intro!: data.equality)
qed

lemma eway_any_loop_eq:
  "eway_any_loop nrs w e =
     (if list_ex (\<lambda>nr. positive nr \<in> node_ids e) nrs
      then add_way_nodes (way_nodes w) (e\<lparr>way_ids := insert (positive (way_id w)) (way_ids e)\<rparr>)
      else e)"
  by (induction nrs) auto

text \<open>
  C3. With \<^verbatim>\<open>by_first_node\<close> disabled, \<^verbatim>\<open>Pass1::eway\<close> never fails; it puts the
  way's ID into \<^verbatim>\<open>way_ids\<close> exactly if at least one referenced node is in
  \<^verbatim>\<open>node_ids\<close>, and in that case, and only then, every referenced node missing from
  \<^verbatim>\<open>node_ids\<close> goes into \<^verbatim>\<open>extra_node_ids\<close>. Nothing else changes.
\<close>

theorem pass1_eway_any_node:
  assumes "\<not> m_by_first_node s"
  shows "pass1_eway s w e =
     Inr (if list_ex (\<lambda>nr. positive nr \<in> node_ids e) (way_nodes w)
          then e\<lparr>way_ids := insert (positive (way_id w)) (way_ids e),
                 extra_node_ids := extra_node_ids e \<union> missing_nodes (node_ids e) (way_nodes w)\<rparr>
          else e)"
  using assms by (simp add: pass1_eway_def eway_any_loop_eq add_way_nodes_eq)

theorem pass1_eway_any_node_witness:
  "\<not> m_by_first_node
       \<lparr>m_relation_filter = (\<lambda>t. False), m_relation_system_filter = (\<lambda>t. False),
        m_by_first_node = False, m_extracts = []\<rparr>
   \<and> pass1_eway
       \<lparr>m_relation_filter = (\<lambda>t. False), m_relation_system_filter = (\<lambda>t. False),
        m_by_first_node = False, m_extracts = []\<rparr>
       \<lparr>way_id = 10, way_tags = [], way_nodes = [3, 1]\<rparr>
       \<lparr>node_ids = {1}, extra_node_ids = {}, way_ids = {}, extra_way_ids = {},
        relation_ids = {}, extra_relation_ids = {}, contains = (\<lambda>l. False),
        has_conflicting_tags = (\<lambda>t. False), has_matching_tags = (\<lambda>t. False), written = []\<rparr>
     = Inr \<lparr>node_ids = {1}, extra_node_ids = {3}, way_ids = {10}, extra_way_ids = {},
        relation_ids = {}, extra_relation_ids = {}, contains = (\<lambda>l. False),
        has_conflicting_tags = (\<lambda>t. False), has_matching_tags = (\<lambda>t. False), written = []\<rparr>"
  using pass1_eway_any_node[of
       "\<lparr>m_relation_filter = (\<lambda>t. False), m_relation_system_filter = (\<lambda>t. False),
        m_by_first_node = False, m_extracts = []\<rparr>"
       "\<lparr>way_id = 10, way_tags = [], way_nodes = [3, 1]\<rparr>"
       "\<lparr>node_ids = {1}, extra_node_ids = {}, way_ids = {}, extra_way_ids = {},
        relation_ids = {}, extra_relation_ids = {}, contains = (\<lambda>l. False),
        has_conflicting_tags = (\<lambda>t. False), has_matching_tags = (\<lambda>t. False), written = []\<rparr>"]
  by (auto simp: missing_nodes_def positive_def)





subsection \<open>Scan 1: relations\<close>

lemma erelation_loop_eq:
  "erelation_loop ms s rel e =
     (if list_ex (primary_member e) ms then accept_relation s rel e else e)"
  by (induction ms) (auto simp: primary_member_def split: item_type.splits)



subsection \<open>Scan 4\<close>

lemma pass4_object_eq:
  "pass4_object obj s =
     s\<lparr>m_extracts := map (\<lambda>e. if in_extract e obj then write_item obj e else e) (m_extracts s)\<rparr>"
  by (cases obj)
     (simp_all add: pass4_object_def in_extract_def pass4_enode_def pass4_eway_def
        pass4_erelation_def)

lemma in_extract_written [simp]:
  "in_extract (e\<lparr>written := ws\<rparr>) = in_extract e"
  by (rule ext) (simp add: in_extract_def split: osm_object.splits)

lemma pass4_handler_step:
  "(if in_extract e obj then write_item obj e else e)
     \<lparr>written := written (if in_extract e obj then write_item obj e else e)
        @ filter (in_extract (if in_extract e obj then write_item obj e else e)) objs\<rparr>
   = e\<lparr>written := written e @ filter (in_extract e) (obj # objs)\<rparr>"
  by (cases "in_extract e obj") (simp_all add: write_item_def)

lemma pass4_run_eq:
  "pass_run pass4_object objs s =
     s\<lparr>m_extracts :=
         map (\<lambda>e. e\<lparr>written := written e @ filter (in_extract e) objs\<rparr>) (m_extracts s)\<rparr>"
proof (induction objs arbitrary: s)
  case Nil
  show ?case by simp
next
  case (Cons obj objs)
  have "pass_run pass4_object (obj # objs) s = pass_run pass4_object objs (pass4_object obj s)"
    by simp
  also have "\<dots> = (pass4_object obj s)\<lparr>m_extracts :=
      map (\<lambda>e. e\<lparr>written := written e @ filter (in_extract e) objs\<rparr>)
        (m_extracts (pass4_object obj s))\<rparr>"
    by (rule Cons.IH)
  also have "\<dots> = s\<lparr>m_extracts :=
      map (\<lambda>e. e\<lparr>written := written e @ filter (in_extract e) (obj # objs)\<rparr>) (m_extracts s)\<rparr>"
    by (simp add: pass4_object_eq comp_def pass4_handler_step del: filter.simps)
  finally show ?case .
qed

text \<open>
  C7. Scan 4 appends to each extract's output exactly the objects of the input whose ID is
  in the primary or the extra set of their type in that extract, in input order, and
  changes nothing else: no ID set of any extract, no other field of the strategy.
\<close>

theorem scan4_writes_selected:
  "scan4 f s =
     s\<lparr>m_extracts :=
         map (\<lambda>e. e\<lparr>written := written e @ filter (in_extract e) (objects f)\<rparr>) (m_extracts s)\<rparr>"
  by (simp add: scan4_def pass4_run_eq)


subsection \<open>Input that cannot be read again\<close>

text \<open>
  C8. With an empty file name (standard input) \<^verbatim>\<open>Strategy::run\<close> throws
  \<^verbatim>\<open>io_error\<close> before pass 1: the strategy with all its extracts, ID sets and outputs,
  is as it was.
\<close>

theorem run_rejects_stdin:
  assumes "filename f = []"
  shows "run f s = (Some io_error, s)"
  using assms by (simp add: run_def)


theorem run_rejects_stdin_witness:
  "filename \<lparr>filename = [], objects = [Node_object \<lparr>node_id = 1, node_tags = [], node_location = (0, 0)\<rparr>]\<rparr> = []
   \<and> run \<lparr>filename = [], objects = [Node_object \<lparr>node_id = 1, node_tags = [], node_location = (0, 0)\<rparr>]\<rparr>
       \<lparr>m_relation_filter = (\<lambda>t. False), m_relation_system_filter = (\<lambda>t. False),
        m_by_first_node = False,
        m_extracts = [\<lparr>node_ids = {}, extra_node_ids = {}, way_ids = {}, extra_way_ids = {},
          relation_ids = {}, extra_relation_ids = {}, contains = (\<lambda>l. True),
          has_conflicting_tags = (\<lambda>t. False), has_matching_tags = (\<lambda>t. False), written = []\<rparr>]\<rparr>
     = (Some io_error,
        \<lparr>m_relation_filter = (\<lambda>t. False), m_relation_system_filter = (\<lambda>t. False),
         m_by_first_node = False,
         m_extracts = [\<lparr>node_ids = {}, extra_node_ids = {}, way_ids = {}, extra_way_ids = {},
           relation_ids = {}, extra_relation_ids = {}, contains = (\<lambda>l. True),
           has_conflicting_tags = (\<lambda>t. False), has_matching_tags = (\<lambda>t. False), written = []\<rparr>]\<rparr>)"
  using run_rejects_stdin[of
      "\<lparr>filename = [], objects = [Node_object \<lparr>node_id = 1, node_tags = [], node_location = (0, 0)\<rparr>]\<rparr>"
      "\<lparr>m_relation_filter = (\<lambda>t. False), m_relation_system_filter = (\<lambda>t. False),
        m_by_first_node = False,
        m_extracts = [\<lparr>node_ids = {}, extra_node_ids = {}, way_ids = {}, extra_way_ids = {},
          relation_ids = {}, extra_relation_ids = {}, contains = (\<lambda>l. True),
          has_conflicting_tags = (\<lambda>t. False), has_matching_tags = (\<lambda>t. False), written = []\<rparr>]\<rparr>"]
  by simp



subsection \<open>What the steps after scan 1 write\<close>

lemma pass_run_list_all2:
  assumes refl: "\<And>e. R e e"
    and trans: "\<And>e e' e''. R e e' \<Longrightarrow> R e' e'' \<Longrightarrow> R e e''"
    and step: "\<And>obj s. list_all2 R (m_extracts s) (m_extracts (h obj s))"
  shows "list_all2 R (m_extracts s) (m_extracts (pass_run h objs s))"
proof (induction objs arbitrary: s)
  case Nil
  show ?case by (simp add: list_all2_refl refl)
next
  case (Cons obj objs)
  have "list_all2 R (m_extracts s) (m_extracts (h obj s))" by (rule step)
  moreover have "list_all2 R (m_extracts (h obj s)) (m_extracts (pass_run h objs (h obj s)))"
    by (rule Cons.IH)
  ultimately show ?case
    using trans by (auto elim: list_all2_trans[rotated])
qed

lemma list_all2_map_self:
  "(\<And>e. R e (g e)) \<Longrightarrow> list_all2 R es (map g es)"
  by (simp add: list_all2_map2 list_all2_refl)

lemma add_relation_network_writes:
  "writes_only_extra_relations e (add_relation_network indices e)"
proof -
  obtain X where "add_relation_network indices e = e\<lparr>extra_relation_ids := X\<rparr>"
    unfolding add_relation_network_def using network_loop_frame by blast
  then show ?thesis by (simp add: writes_only_extra_relations_def)
qed

lemma pass2_erelation_writes:
  "writes_only_extra_nodes_ways e (pass2_erelation s rel e)"
  by (simp add: writes_only_extra_nodes_ways_def pass2_erelation_def add_relation_members_eq)

lemma pass3_eway_writes:
  "writes_only_extra_nodes e (pass3_eway w e)"
  by (simp add: writes_only_extra_nodes_def pass3_eway_def add_way_nodes_eq)

lemma closure_step_writes:
  "list_all2 writes_only_extra_relations (m_extracts s) (m_extracts (closure_step indices s))"
  by (simp add: closure_step_def list_all2_map_self add_relation_network_writes)

lemma writes_only_extra_relations_trans:
  assumes "writes_only_extra_relations e e'" and "writes_only_extra_relations e' e''"
  shows "writes_only_extra_relations e e''"
proof -
  from assms(1) obtain X where 1: "e' = e\<lparr>extra_relation_ids := X\<rparr>"
    unfolding writes_only_extra_relations_def by blast
  from assms(2) obtain X' where 2: "e'' = e'\<lparr>extra_relation_ids := X'\<rparr>"
    unfolding writes_only_extra_relations_def by blast
  show ?thesis
    unfolding writes_only_extra_relations_def by (simp add: 1 2)
qed

lemma writes_only_extra_nodes_ways_trans:
  assumes "writes_only_extra_nodes_ways e e'" and "writes_only_extra_nodes_ways e' e''"
  shows "writes_only_extra_nodes_ways e e''"
proof -
  from assms(1) obtain X Y where 1: "e' = e\<lparr>extra_node_ids := X, extra_way_ids := Y\<rparr>"
    unfolding writes_only_extra_nodes_ways_def by blast
  from assms(2) obtain X' Y' where 2: "e'' = e'\<lparr>extra_node_ids := X', extra_way_ids := Y'\<rparr>"
    unfolding writes_only_extra_nodes_ways_def by blast
  show ?thesis
    unfolding writes_only_extra_nodes_ways_def by (simp add: 1 2)
qed

lemma writes_only_extra_nodes_trans:
  assumes "writes_only_extra_nodes e e'" and "writes_only_extra_nodes e' e''"
  shows "writes_only_extra_nodes e e''"
proof -
  from assms(1) obtain X where 1: "e' = e\<lparr>extra_node_ids := X\<rparr>"
    unfolding writes_only_extra_nodes_def by blast
  from assms(2) obtain X' where 2: "e'' = e'\<lparr>extra_node_ids := X'\<rparr>"
    unfolding writes_only_extra_nodes_def by blast
  show ?thesis
    unfolding writes_only_extra_nodes_def by (simp add: 1 2)
qed

lemma writes_only_output_trans:
  assumes "writes_only_output e e'" and "writes_only_output e' e''"
  shows "writes_only_output e e''"
proof -
  from assms(1) obtain X where 1: "e' = e\<lparr>written := X\<rparr>"
    unfolding writes_only_output_def by blast
  from assms(2) obtain X' where 2: "e'' = e'\<lparr>written := X'\<rparr>"
    unfolding writes_only_output_def by blast
  show ?thesis
    unfolding writes_only_output_def by (simp add: 1 2)
qed

lemma pass2_object_writes:
  "list_all2 writes_only_extra_nodes_ways (m_extracts s) (m_extracts (pass2_object obj s))"
proof (cases obj)
  case (Relation_object rel)
  then show ?thesis
    by (simp add: pass2_object_def list_all2_map_self pass2_erelation_writes)
qed (simp_all add: pass2_object_def list_all2_same writes_only_extra_nodes_ways_def)

lemma pass3_object_writes:
  "list_all2 writes_only_extra_nodes (m_extracts s) (m_extracts (pass3_object obj s))"
proof (cases obj)
  case (Way_object w)
  then show ?thesis
    by (simp add: pass3_object_def list_all2_map_self pass3_eway_writes)
qed (simp_all add: pass3_object_def list_all2_same writes_only_extra_nodes_def)

lemma pass2_run_writes:
  "list_all2 writes_only_extra_nodes_ways (m_extracts s) (m_extracts (pass_run pass2_object objs s))"
proof (rule pass_run_list_all2)
  show "writes_only_extra_nodes_ways e e" for e
    by (simp add: writes_only_extra_nodes_ways_def)
qed (fact writes_only_extra_nodes_ways_trans pass2_object_writes)+

lemma pass3_run_writes:
  "list_all2 writes_only_extra_nodes (m_extracts s) (m_extracts (pass_run pass3_object objs s))"
proof (rule pass_run_list_all2)
  show "writes_only_extra_nodes e e" for e
    by (simp add: writes_only_extra_nodes_def)
qed (fact writes_only_extra_nodes_trans pass3_object_writes)+


lemma pass4_object_writes:
  "list_all2 writes_only_output (m_extracts s) (m_extracts (pass4_object obj s))"
  by (cases obj)
     (simp_all add: pass4_object_def list_all2_map_self writes_only_output_def
        pass4_enode_def pass4_eway_def pass4_erelation_def write_item_def)

lemma pass4_run_writes:
  "list_all2 writes_only_output (m_extracts s) (m_extracts (pass_run pass4_object objs s))"
proof (rule pass_run_list_all2)
  show "writes_only_output e e" for e
    by (simp add: writes_only_output_def)
qed (fact writes_only_output_trans pass4_object_writes)+

lemma scan2_frame:
  "list_all2 writes_only_extra_nodes_ways (m_extracts s) (m_extracts (scan2 f s))"
  by (simp add: scan2_def pass2_run_writes list_all2_same writes_only_extra_nodes_ways_def)

lemma scan3_frame:
  "list_all2 writes_only_extra_nodes (m_extracts s) (m_extracts (scan3 f s))"
  by (simp add: scan3_def pass3_run_writes list_all2_same writes_only_extra_nodes_def)

lemma scan4_frame:
  "list_all2 writes_only_output (m_extracts s) (m_extracts (scan4 f s))"
  by (simp add: scan4_def pass4_run_writes)

lemma primary_sets_list_all2:
  assumes "list_all2 R es es'" and "\<And>e e'. R e e' \<Longrightarrow> primary_sets e' = primary_sets e"
  shows "map primary_sets es' = map primary_sets es"
  using assms by (induction rule: list_all2_induct) auto

lemma primary_sets_closure_step:
  "map primary_sets (m_extracts (closure_step indices s)) = map primary_sets (m_extracts s)"
proof (rule primary_sets_list_all2[OF closure_step_writes])
  fix e e' :: extract_data
  assume "writes_only_extra_relations e e'"
  then obtain X where "e' = e\<lparr>extra_relation_ids := X\<rparr>"
    unfolding writes_only_extra_relations_def by blast
  then show "primary_sets e' = primary_sets e" by (simp add: primary_sets_def)
qed

lemma primary_sets_scan2:
  "map primary_sets (m_extracts (scan2 f s)) = map primary_sets (m_extracts s)"
proof (rule primary_sets_list_all2[OF scan2_frame])
  fix e e' :: extract_data
  assume "writes_only_extra_nodes_ways e e'"
  then obtain X Y where "e' = e\<lparr>extra_node_ids := X, extra_way_ids := Y\<rparr>"
    unfolding writes_only_extra_nodes_ways_def by blast
  then show "primary_sets e' = primary_sets e" by (simp add: primary_sets_def)
qed

lemma primary_sets_scan3:
  "map primary_sets (m_extracts (scan3 f s)) = map primary_sets (m_extracts s)"
proof (rule primary_sets_list_all2[OF scan3_frame])
  fix e e' :: extract_data
  assume "writes_only_extra_nodes e e'"
  then obtain X where "e' = e\<lparr>extra_node_ids := X\<rparr>"
    unfolding writes_only_extra_nodes_def by blast
  then show "primary_sets e' = primary_sets e" by (simp add: primary_sets_def)
qed

lemma primary_sets_scan4:
  "map primary_sets (m_extracts (scan4 f s)) = map primary_sets (m_extracts s)"
proof (rule primary_sets_list_all2[OF scan4_frame])
  fix e e' :: extract_data
  assume "writes_only_output e e'"
  then obtain X where "e' = e\<lparr>written := X\<rparr>"
    unfolding writes_only_output_def by blast
  then show "primary_sets e' = primary_sets e" by (simp add: primary_sets_def)
qed

lemma primary_sets_run:
  assumes "filename f \<noteq> []"
  shows "map primary_sets (m_extracts (snd (run f s)))
     = map primary_sets (m_extracts (snd (snd (pass1_run (objects f) (pass1_init, s)))))"
proof (cases "pass1_run (objects f) (pass1_init, s)")
  case (fields r p s1)
  show ?thesis
  proof (cases r)
    case None
    with fields assms show ?thesis
      by (simp add: run_def Let_def primary_sets_scan4 primary_sets_scan3 primary_sets_scan2
          primary_sets_closure_step)
  next
    case (Some err)
    with fields assms show ?thesis by (simp add: run_def)
  qed
qed

text \<open>
  C10. After scan 1 the primary sets are not written again. For every extract, the
  closure step writes \<^verbatim>\<open>extra_relation_ids\<close> only, scan 2 writes \<^verbatim>\<open>extra_node_ids\<close>
  and \<^verbatim>\<open>extra_way_ids\<close> only, scan 3 writes \<^verbatim>\<open>extra_node_ids\<close> only, and scan 4
  writes the output only; so at the end of a run that got past the file-name check the
  primary sets of every extract are those that scan 1 left.
\<close>

theorem primary_sets_final_after_scan1:
  "list_all2 writes_only_extra_relations (m_extracts s) (m_extracts (closure_step indices s))
   \<and> list_all2 writes_only_extra_nodes_ways (m_extracts s) (m_extracts (scan2 f s))
   \<and> list_all2 writes_only_extra_nodes (m_extracts s) (m_extracts (scan3 f s))
   \<and> list_all2 writes_only_output (m_extracts s) (m_extracts (scan4 f s))
   \<and> (filename f \<noteq> [] \<longrightarrow>
        map primary_sets (m_extracts (snd (run f s)))
          = map primary_sets (m_extracts (snd (snd (pass1_run (objects f) (pass1_init, s))))))"
  using closure_step_writes scan2_frame scan3_frame scan4_frame primary_sets_run
  by blast

theorem primary_sets_final_after_scan1_witness:
  "filename ex_file \<noteq> []
   \<and> map primary_sets (m_extracts (snd (run ex_file ex_strategy))) = [({1, 2}, {10}, {20})]
   \<and> map primary_sets (m_extracts (snd (snd (pass1_run (objects ex_file) (pass1_init, ex_strategy)))))
       = [({1, 2}, {10}, {20})]"
proof -
  have 1: "filename ex_file \<noteq> []"
    by (simp add: ex_file_def)
  have 2: "map primary_sets (m_extracts (snd (run ex_file ex_strategy))) = [({1, 2}, {10}, {20})]"
    by code_simp
  from primary_sets_final_after_scan1[of ex_strategy _ ex_file] 1 2
  show ?thesis by simp
qed


subsection \<open>Extra sets are disjoint from primary sets\<close>

lemma pass1_inv_empty: "empty_data e \<Longrightarrow> pass1_inv c e"
  by (simp add: empty_data_def pass1_inv_def disjoint_sets_def)

lemma pass1_inv_enode:
  assumes "pass1_inv c e" and "check_order_node n c = Inr c'"
  shows "pass1_inv c' (pass1_enode n e)"
  using assms
  by (auto simp: pass1_inv_def check_order_node_def pass1_enode_def disjoint_sets_def
      split: if_splits)

lemma missing_nodes_disjoint: "x \<in> missing_nodes prim nrs \<Longrightarrow> x \<notin> prim"
  by (simp add: missing_nodes_def)

lemma missing_members_disjoint: "x \<in> missing_members t prim ms \<Longrightarrow> x \<notin> prim"
  by (simp add: missing_members_def)

lemma pass1_inv_way_seen:
  assumes "pass1_inv c e" and "check_order_way w c = Inr c'"
  shows "pass1_inv c' e"
  using assms
  by (auto simp: pass1_inv_def check_order_way_def split: if_splits)

lemma pass1_inv_eway:
  assumes "pass1_inv c e" and "check_order_way w c = Inr c'" and "pass1_eway s w e = Inr e'"
  shows "pass1_inv c' e'"
proof -
  from assms(1,2) have c: "m_max_relation_id c' = None" "m_max_way_id c' \<noteq> None"
    and e: "disjoint_sets e" "extra_relation_ids e = {}" "extra_way_ids e = {}"
      "finite (relation_ids e)"
    by (auto simp: pass1_inv_def check_order_way_def split: if_splits)
  have "e' = e \<or> e' = e\<lparr>way_ids := insert (positive (way_id w)) (way_ids e),
        extra_node_ids := extra_node_ids e \<union> missing_nodes (node_ids e) (way_nodes w)\<rparr>"
    using assms(3)
    by (auto simp: pass1_eway_def eway_any_loop_eq add_way_nodes_eq
        split: if_splits list.splits)
  then show ?thesis
    using c e
    by (auto simp: pass1_inv_def disjoint_sets_def dest: missing_nodes_disjoint)
qed

lemma pass1_inv_erelation:
  assumes "pass1_inv c e" and "check_order_relation rel c = Inr c'"
  shows "pass1_inv c' (pass1_erelation s rel e)"
proof -
  from assms have c: "m_max_relation_id c' \<noteq> None"
    and e: "disjoint_sets e" "extra_relation_ids e = {}" "finite (relation_ids e)"
    by (auto simp: pass1_inv_def check_order_relation_def split: if_splits)
  show ?thesis
    using c e
    by (auto simp: pass1_inv_def disjoint_sets_def pass1_erelation_def erelation_loop_eq
        accept_relation_def Let_def add_relation_members_eq dest: missing_members_disjoint)
qed


lemma for_each_extract_inv:
  assumes "\<And>e e'. P e \<Longrightarrow> h e = Inr e' \<Longrightarrow> Q e'" and "\<And>e. P e \<Longrightarrow> Q e"
    and "list_all P es"
  shows "list_all Q (snd (for_each_extract h es))"
  using assms(3)
proof (induction es)
  case Nil
  show ?case by simp
next
  case (Cons e es)
  then show ?case
    using assms(1)[of e] assms(2)
    by (auto simp: list_all_iff split: sum.splits prod.splits)
qed

lemma pass1_object_inv:
  assumes "list_all (pass1_inv (m_check_order p)) (m_extracts s)"
    and "pass1_object obj (p, s) = (r, p', s')"
  shows "list_all (pass1_inv (m_check_order p')) (m_extracts s')"
proof (cases obj)
  case (Node_object n)
  show ?thesis
  proof (cases "check_order_node n (m_check_order p)")
    case (Inl err)
    with Node_object assms show ?thesis
      by (auto simp: pass1_object_def pass1_node_def)
  next
    case (Inr c')
    with Node_object assms(2) have "m_check_order p' = c'"
      and "m_extracts s' = map (pass1_enode n) (m_extracts s)"
      by (auto simp: pass1_object_def pass1_node_def)
    with assms(1) Inr show ?thesis
      by (auto simp: list_all_iff intro: pass1_inv_enode)
  qed
next
  case (Way_object w)
  show ?thesis
  proof (cases "check_order_way w (m_check_order p)")
    case (Inl err)
    with Way_object assms show ?thesis
      by (auto simp: pass1_object_def pass1_way_def)
  next
    case (Inr c')
    with Way_object assms(2) have "m_check_order p' = c'"
      and "m_extracts s' = snd (for_each_extract (pass1_eway s w) (m_extracts s))"
      by (auto simp: pass1_object_def pass1_way_def split: prod.splits)
    moreover have "list_all (pass1_inv c') (snd (for_each_extract (pass1_eway s w) (m_extracts s)))"
      using Inr by (intro for_each_extract_inv[OF _ _ assms(1)])
        (auto intro: pass1_inv_eway pass1_inv_way_seen)
    ultimately show ?thesis by simp
  qed
next
  case (Relation_object rel)
  show ?thesis
  proof (cases "check_order_relation rel (m_check_order p)")
    case (Inl err)
    with Relation_object assms show ?thesis
      by (auto simp: pass1_object_def pass1_relation_def)
  next
    case (Inr c')
    with Relation_object assms(2) have "m_check_order p' = c'"
      and "m_extracts s' = map (pass1_erelation s rel) (m_extracts s)"
      by (auto simp: pass1_object_def pass1_relation_def split: if_splits)
    with assms(1) Inr show ?thesis
      by (auto simp: list_all_iff intro: pass1_inv_erelation)
  qed
qed

lemma pass1_run_inv:
  assumes "list_all (pass1_inv (m_check_order p)) (m_extracts s)"
    and "pass1_run objs (p, s) = (r, p', s')"
  shows "list_all (pass1_inv (m_check_order p')) (m_extracts s')"
  using assms
proof (induction objs arbitrary: p s)
  case Nil
  then show ?case by simp
next
  case (Cons obj objs)
  obtain r1 p1 s1 where step: "pass1_object obj (p, s) = (r1, p1, s1)"
    by (cases "pass1_object obj (p, s)") auto
  from pass1_object_inv[OF Cons.prems(1) step]
  have inv1: "list_all (pass1_inv (m_check_order p1)) (m_extracts s1)" .
  show ?case
  proof (cases r1)
    case None
    with step Cons.prems(2) have "pass1_run objs (p1, s1) = (r, p', s')" by simp
    from Cons.IH[OF inv1 this] show ?thesis .
  next
    case (Some err)
    with step Cons.prems(2) have "p' = p1" and "s' = s1" by simp_all
    with inv1 show ?thesis by simp
  qed
qed

lemma pass1_run_disjoint:
  assumes "list_all empty_data (m_extracts s)"
  shows "list_all disjoint_sets (m_extracts (snd (snd (pass1_run objs (pass1_init, s)))))"
proof -
  obtain r p' s' where run: "pass1_run objs (pass1_init, s) = (r, p', s')"
    by (cases "pass1_run objs (pass1_init, s)") auto
  from assms have "list_all (pass1_inv (m_check_order pass1_init)) (m_extracts s)"
    by (auto simp: list_all_iff intro: pass1_inv_empty)
  from pass1_run_inv[OF this run] run show ?thesis
    by (auto simp: list_all_iff pass1_inv_def)
qed

lemma add_relation_network_disjoint:
  assumes "disjoint_sets e"
  shows "disjoint_sets (add_relation_network indices e)"
proof -
  let ?q = "concat (map (queue_relations indices) (sorted_list_of_set (relation_ids e)))"
  obtain X where X: "network_loop indices ?q e = e\<lparr>extra_relation_ids := X\<rparr>"
    using network_loop_frame by blast
  from assms have "extra_relation_ids e \<inter> relation_ids e = {}"
    by (auto simp: disjoint_sets_def)
  from network_loop_disjoint[OF this, of indices ?q] X
  have "X \<inter> relation_ids e = {}" by simp
  with assms X show ?thesis
    by (auto simp: add_relation_network_def disjoint_sets_def)
qed

lemma pass2_erelation_disjoint:
  "disjoint_sets e \<Longrightarrow> disjoint_sets (pass2_erelation s rel e)"
  by (auto simp: disjoint_sets_def pass2_erelation_def add_relation_members_eq
      dest: missing_members_disjoint)

lemma pass3_eway_disjoint:
  "disjoint_sets e \<Longrightarrow> disjoint_sets (pass3_eway w e)"
  by (auto simp: disjoint_sets_def pass3_eway_def add_way_nodes_eq dest: missing_nodes_disjoint)

lemma pass_run_list_all:
  assumes "\<And>obj s. list_all P (m_extracts s) \<Longrightarrow> list_all P (m_extracts (h obj s))"
    and "list_all P (m_extracts s)"
  shows "list_all P (m_extracts (pass_run h objs s))"
  using assms(2) by (induction objs arbitrary: s) (auto intro: assms(1))

lemma closure_step_disjoint:
  "list_all disjoint_sets (m_extracts s)
     \<Longrightarrow> list_all disjoint_sets (m_extracts (closure_step indices s))"
  by (auto simp: closure_step_def list_all_iff intro: add_relation_network_disjoint)

lemma pass2_run_disjoint:
  "list_all disjoint_sets (m_extracts s)
     \<Longrightarrow> list_all disjoint_sets (m_extracts (pass_run pass2_object objs s))"
proof (rule pass_run_list_all)
  show "list_all disjoint_sets (m_extracts (pass2_object obj s))"
    if "list_all disjoint_sets (m_extracts s)" for obj s
    using that
    by (cases obj) (auto simp: pass2_object_def list_all_iff intro: pass2_erelation_disjoint)
qed

lemma pass3_run_disjoint:
  "list_all disjoint_sets (m_extracts s)
     \<Longrightarrow> list_all disjoint_sets (m_extracts (pass_run pass3_object objs s))"
proof (rule pass_run_list_all)
  show "list_all disjoint_sets (m_extracts (pass3_object obj s))"
    if "list_all disjoint_sets (m_extracts s)" for obj s
    using that
    by (cases obj) (auto simp: pass3_object_def list_all_iff intro: pass3_eway_disjoint)
qed

lemma pass4_run_disjoint:
  "list_all disjoint_sets (m_extracts s)
     \<Longrightarrow> list_all disjoint_sets (m_extracts (pass_run pass4_object objs s))"
  by (simp add: pass4_run_eq list_all_iff disjoint_sets_def)

lemma run_disjoint:
  assumes "list_all empty_data (m_extracts s)"
  shows "list_all disjoint_sets (m_extracts (snd (run f s)))"
proof (cases "filename f = []")
  case True
  with assms show ?thesis
    by (auto simp: run_def list_all_iff empty_data_def disjoint_sets_def)
next
  case False
  obtain r p s1 where p1: "pass1_run (objects f) (pass1_init, s) = (r, p, s1)"
    by (cases "pass1_run (objects f) (pass1_init, s)") auto
  from pass1_run_disjoint[OF assms, of "objects f"] p1
  have d: "list_all disjoint_sets (m_extracts s1)" by simp
  show ?thesis
  proof (cases r)
    case None
    with False p1 d show ?thesis
      by (simp add: run_def Let_def scan4_def scan3_def scan2_def
          pass4_run_disjoint pass3_run_disjoint pass2_run_disjoint closure_step_disjoint)
  next
    case (Some err)
    with False p1 d show ?thesis by (simp add: run_def)
  qed
qed

text \<open>
  C9. Started on extracts with empty ID sets, no ID is in both the primary and the extra
  set of its type, for every extract: after any input to scan 1 (whether scan 1 gets to
  the end of it or stops at an error), so at every element of scan 1; after the closure
  step and any input to scans 2, 3 and 4, so at every element of those; and in the state
  that \<^verbatim>\<open>Strategy::run\<close> leaves.
\<close>

theorem extra_sets_disjoint_from_primary:
  assumes "list_all empty_data (m_extracts s)"
  shows "list_all disjoint_sets (m_extracts (snd (snd (pass1_run objs (pass1_init, s)))))
     \<and> list_all disjoint_sets
         (m_extracts (pass_run pass4_object objs4 (pass_run pass3_object objs3
            (pass_run pass2_object objs2
               (closure_step indices (snd (snd (pass1_run objs (pass1_init, s)))))))))
     \<and> list_all disjoint_sets (m_extracts (snd (run f s)))"
  using assms
  by (intro conjI pass4_run_disjoint pass3_run_disjoint pass2_run_disjoint closure_step_disjoint
      pass1_run_disjoint run_disjoint)

theorem extra_sets_disjoint_from_primary_witness:
  "list_all empty_data (m_extracts ex_strategy)
   \<and> list_all disjoint_sets (m_extracts (snd (run ex_file ex_strategy)))
   \<and> map (\<lambda>e. (extra_node_ids e, extra_way_ids e, extra_relation_ids e))
        (m_extracts (snd (run ex_file ex_strategy))) = [({3}, {}, {21})]"
proof -
  have 1: "list_all empty_data (m_extracts ex_strategy)"
    by (simp add: ex_strategy_def empty_data_def)
  have 2: "map (\<lambda>e. (extra_node_ids e, extra_way_ids e, extra_relation_ids e))
        (m_extracts (snd (run ex_file ex_strategy))) = [({3}, {}, {21})]"
    by code_simp
  from extra_sets_disjoint_from_primary[OF 1, of _ _ _ _ _ ex_file] 1 2
  show ?thesis by simp
qed



text \<open>
  The closure step of \<^verbatim>\<open>Strategy::run\<close> meets the two conditions under which the
  closure was characterised above: after scan 1, started on extracts with empty ID sets,
  every extract has finitely many primary relations and no extra relation.
\<close>

lemma closure_conditions_after_scan1:
  assumes "list_all empty_data (m_extracts s)"
    and "e \<in> set (m_extracts (snd (snd (pass1_run objs (pass1_init, s)))))"
  shows "finite (relation_ids e) \<and> extra_relation_ids e = {}"
proof -
  obtain r p' s' where run: "pass1_run objs (pass1_init, s) = (r, p', s')"
    by (cases "pass1_run objs (pass1_init, s)") auto
  from assms(1) have "list_all (pass1_inv (m_check_order pass1_init)) (m_extracts s)"
    by (auto simp: list_all_iff intro: pass1_inv_empty)
  from pass1_run_inv[OF this run] run assms(2) show ?thesis
    by (auto simp: list_all_iff pass1_inv_def)
qed

end
